theory Spec2Isabelle
  imports Main "HOL-Library.Stream"
begin

section \<open>Data model of \<^verbatim>\<open>snake_game.py\<close>\<close>

text \<open>
  \<^verbatim>\<open>class Direction(Enum)\<close> has the four members below. A cell is a Python tuple of two
  (unbounded) integers, the snake a list of cells with the head at index 0.
\<close>

datatype Direction = UP | DOWN | LEFT | RIGHT

type_synonym cell = "int \<times> int"

text \<open>The only exception the game logic can raise: \<^verbatim>\<open>self.snake[0]\<close> on an empty list.\<close>

datatype error = IndexError

text \<open>The reactive attributes of \<^verbatim>\<open>class SnakeGame\<close> (lines 34-39).\<close>

record SnakeGame =
  snake :: "cell list"
  food :: cell
  direction :: Direction
  score :: int
  game_over :: bool
  paused :: bool

text \<open>Game settings (lines 42-43).\<close>

definition WIDTH :: int where
  "WIDTH = 30"

definition HEIGHT :: int where
  "HEIGHT = 20"

section \<open>The random source\<close>

text \<open>
  \<^verbatim>\<open>random\<close> is the global generator of the Python library. Its state is modelled as
  an arbitrary infinite stream of raw naturals that is passed through every operation
  that draws from it. \<^verbatim>\<open>random.randint(a, b)\<close> is library code; it is modelled by its
  contract \<open>a \<le> N \<le> b\<close>: the next raw value reduced into the range. Every sequence of
  in-range results is produced by some stream. The game only calls it with
  \<open>a = 0\<close> and \<open>b = WIDTH - 1\<close> or \<open>b = HEIGHT - 1\<close>, so the range is never empty.
\<close>

type_synonym rng = "nat stream"

definition randint :: "int \<Rightarrow> int \<Rightarrow> rng \<Rightarrow> int \<times> rng" where
  "randint a b g = (a + int (shd g mod nat (b - a + 1)), stl g)"

text \<open>
  A call either returns a value, raises, or never returns: \<open>None\<close> is a call that
  does not return, \<open>Some (Inl e)\<close> one that raises \<open>e\<close>.
\<close>

type_synonym 'a result = "(error + 'a) option"

section \<open>Operations of \<^verbatim>\<open>SnakeGame\<close>\<close>

text \<open>
  \<^verbatim>\<open>place_food\<close> (lines 62-69): rejection sampling in a \<^verbatim>\<open>while True\<close> loop. The loop
  need not end, so the function is partial.
\<close>

partial_function (option) place_food :: "SnakeGame \<Rightarrow> rng \<Rightarrow> (SnakeGame \<times> rng) option" where
  "place_food s g =
     (let (x, g1) = randint 0 (WIDTH - 1) g;
          (y, g2) = randint 0 (HEIGHT - 1) g1
      in if (x, y) \<notin> set (snake s) then Some (s\<lparr>food := (x, y)\<rparr>, g2)
         else place_food s g2)"

text \<open>\<^verbatim>\<open>reset_game\<close> (lines 50-60).\<close>

definition reset_game :: "SnakeGame \<Rightarrow> rng \<Rightarrow> (SnakeGame \<times> rng) option" where
  "reset_game s g =
     (let start_x = WIDTH div 2;
          start_y = HEIGHT div 2
      in place_food
           (s\<lparr>snake := [(start_x, start_y), (start_x - 1, start_y), (start_x - 2, start_y)],
              direction := RIGHT,
              score := 0,
              game_over := False,
              paused := False\<rparr>) g)"

text \<open>
  \<^verbatim>\<open>update_display\<close> (lines 118-163) renders the state into the widget and changes no
  game attribute. What matters to the game state is whether it returns: when the game
  is not over it reads \<^verbatim>\<open>self.snake[0]\<close> for the first cell of the board, which raises
  on an empty snake.
\<close>

definition update_display :: "SnakeGame \<Rightarrow> error + unit" where
  "update_display s =
     (if game_over s then Inr ()
      else case snake s of [] \<Rightarrow> Inl IndexError | _ # _ \<Rightarrow> Inr ())"

text \<open>The new head position (lines 84-91).\<close>

fun new_head :: "Direction \<Rightarrow> cell \<Rightarrow> cell" where
  "new_head UP (head_x, head_y) = (head_x, head_y - 1)"
| "new_head DOWN (head_x, head_y) = (head_x, head_y + 1)"
| "new_head LEFT (head_x, head_y) = (head_x - 1, head_y)"
| "new_head RIGHT (head_x, head_y) = (head_x + 1, head_y)"

text \<open>The wall test (lines 94-95).\<close>

definition hits_wall :: "cell \<Rightarrow> bool" where
  "hits_wall c \<longleftrightarrow> fst c < 0 \<or> fst c \<ge> WIDTH \<or> snd c < 0 \<or> snd c \<ge> HEIGHT"

text \<open>Ending a method with \<^verbatim>\<open>self.update_display()\<close>.\<close>

definition displayed :: "SnakeGame \<Rightarrow> rng \<Rightarrow> (SnakeGame \<times> rng) result" where
  "displayed s g = (case update_display s of Inl e \<Rightarrow> Some (Inl e) | Inr _ \<Rightarrow> Some (Inr (s, g)))"

text \<open>\<^verbatim>\<open>game_loop\<close> (lines 76-116), the tick.\<close>

definition game_loop :: "SnakeGame \<Rightarrow> rng \<Rightarrow> (SnakeGame \<times> rng) result" where
  "game_loop s g =
     (if game_over s \<or> paused s then Some (Inr (s, g))
      else case snake s of
        [] \<Rightarrow> Some (Inl IndexError)
      | h # _ \<Rightarrow>
          let nh = new_head (direction s) h in
          if hits_wall nh then displayed (s\<lparr>game_over := True\<rparr>) g
          else if nh \<in> set (snake s) then displayed (s\<lparr>game_over := True\<rparr>) g
          else
            let s1 = s\<lparr>snake := nh # snake s\<rparr> in
            if nh = food s1 then
              (case place_food (s1\<lparr>score := score s1 + 10\<rparr>) g of
                 None \<Rightarrow> None
               | Some (s2, g') \<Rightarrow> displayed s2 g')
            else displayed (s1\<lparr>snake := butlast (snake s1)\<rparr>) g)"

text \<open>\<^verbatim>\<open>change_direction\<close> (lines 165-179), with its dictionary of opposites.\<close>

definition opposites :: "Direction \<rightharpoonup> Direction" where
  "opposites = [UP \<mapsto> DOWN, DOWN \<mapsto> UP, LEFT \<mapsto> RIGHT, RIGHT \<mapsto> LEFT]"

definition change_direction :: "SnakeGame \<Rightarrow> Direction \<Rightarrow> SnakeGame" where
  "change_direction s new_direction =
     (if game_over s then s
      else if opposites new_direction \<noteq> Some (direction s) then s\<lparr>direction := new_direction\<rparr>
      else s)"

text \<open>\<^verbatim>\<open>toggle_pause\<close> (lines 181-185).\<close>

definition toggle_pause :: "SnakeGame \<Rightarrow> error + SnakeGame" where
  "toggle_pause s =
     (if \<not> game_over s then
        (let s' = s\<lparr>paused := \<not> paused s\<rparr>
         in case update_display s' of Inl e \<Rightarrow> Inl e | Inr _ \<Rightarrow> Inr s')
      else Inr s)"

section \<open>Driving the game\<close>

text \<open>
  \<^verbatim>\<open>SnakeApp\<close> serialises the timer (\<^verbatim>\<open>set_interval(0.15, self.game_loop)\<close>) and the key
  actions on one event loop: \<^verbatim>\<open>action_up\<close> etc. call \<^verbatim>\<open>change_direction\<close>,
  \<^verbatim>\<open>action_pause\<close> calls \<^verbatim>\<open>toggle_pause\<close>, \<^verbatim>\<open>action_restart\<close> calls \<^verbatim>\<open>reset_game\<close> and
  then \<^verbatim>\<open>update_display\<close>. A run is a list of such events; an exception or a call that
  does not return ends it.
\<close>

datatype operation = Step | SetDirection Direction | TogglePause | Reset

fun apply_op :: "operation \<Rightarrow> SnakeGame \<times> rng \<Rightarrow> (SnakeGame \<times> rng) result" where
  "apply_op Step (s, g) = game_loop s g"
| "apply_op (SetDirection d) (s, g) = Some (Inr (change_direction s d, g))"
| "apply_op TogglePause (s, g) =
     (case toggle_pause s of Inl e \<Rightarrow> Some (Inl e) | Inr s' \<Rightarrow> Some (Inr (s', g)))"
| "apply_op Reset (s, g) =
     (case reset_game s g of None \<Rightarrow> None | Some (s', g') \<Rightarrow> displayed s' g')"

fun run :: "operation list \<Rightarrow> SnakeGame \<times> rng \<Rightarrow> (SnakeGame \<times> rng) result" where
  "run [] c = Some (Inr c)"
| "run (x # xs) c =
     (case apply_op x c of
        None \<Rightarrow> None
      | Some (Inl e) \<Rightarrow> Some (Inl e)
      | Some (Inr c') \<Rightarrow> run xs c')"

section \<open>Auxiliary notions for the statements\<close>

text \<open>The cell that one pass of the loop body of \<^verbatim>\<open>place_food\<close> samples (lines 65-66).\<close>

definition drawn :: "rng \<Rightarrow> cell" where
  "drawn g =
     (let (x, g1) = randint 0 (WIDTH - 1) g;
          (y, g2) = randint 0 (HEIGHT - 1) g1
      in (x, y))"

text \<open>
  Concrete states on which the statements are exercised: the start of a game with the
  food five cells ahead, the tick before that food is eaten, a snake facing the left
  wall, and a snake coiled so that its next head cell is its own tail cell.
\<close>

definition scenario :: SnakeGame where
  "scenario = \<lparr>snake = [(15, 10), (14, 10), (13, 10)], food = (20, 10), direction = RIGHT,
     score = 0, game_over = False, paused = False\<rparr>"

definition before_food :: SnakeGame where
  "before_food = \<lparr>snake = [(19, 10), (18, 10), (17, 10)], food = (20, 10), direction = RIGHT,
     score = 0, game_over = False, paused = False\<rparr>"

definition at_wall :: SnakeGame where
  "at_wall = \<lparr>snake = [(0, 10), (1, 10), (2, 10)], food = (20, 10), direction = LEFT,
     score = 0, game_over = False, paused = False\<rparr>"

definition coiled :: SnakeGame where
  "coiled = \<lparr>snake = [(5, 5), (5, 6), (6, 6), (6, 5)], food = (20, 10), direction = RIGHT,
     score = 10, game_over = False, paused = False\<rparr>"

text \<open>
  Playing the board full. \<open>heading h c\<close> is the direction that leads from the head \<open>h\<close>
  to a neighbouring cell \<open>c\<close>; \<open>steer h cs\<close> is the key presses and ticks that lead the
  head along the cells \<open>cs\<close>; \<open>feed cs g\<close> is a random source that samples the cells
  \<open>cs\<close> one after the other and then continues as \<open>g\<close>. A list of cells is
  \<open>well_linked\<close> when each cell is one move away from the cell before it.
\<close>

definition heading :: "cell \<Rightarrow> cell \<Rightarrow> Direction" where
  "heading h c =
     (if c = new_head UP h then UP
      else if c = new_head DOWN h then DOWN
      else if c = new_head LEFT h then LEFT
      else RIGHT)"

fun well_linked :: "cell list \<Rightarrow> bool" where
  "well_linked (a # b # r) \<longleftrightarrow> new_head (heading a b) a = b \<and> well_linked (b # r)"
| "well_linked _ \<longleftrightarrow> True"

fun steer :: "cell \<Rightarrow> cell list \<Rightarrow> operation list" where
  "steer h [] = []"
| "steer h (c # cs) = SetDirection (heading h c) # Step # steer c cs"

fun feed :: "cell list \<Rightarrow> rng \<Rightarrow> rng" where
  "feed [] g = g"
| "feed (c # cs) g = nat (fst c) ## nat (snd c) ## feed cs g"

text \<open>
  A path through all cells of the 30 by 20 grid that are free after a reset with the
  food at \<open>(16, 10)\<close>, except \<open>(12, 10)\<close>: along row 10 to the right wall, in serpentines
  through columns 1 to 29 of the rows below, up column 0, in serpentines through
  columns 1 to 29 of the rows above, and back along row 10 to \<open>(11, 10)\<close>. A snake that
  finds its food on every cell of this path covers the grid except \<open>(12, 10)\<close>, where its
  last food lies. \<open>row y\<close> is one serpentine row, \<open>meal\<close> the path, \<open>first_food\<close> the
  state after the reset and \<open>last_food\<close> the state before the last food is eaten.
\<close>

definition row :: "int \<Rightarrow> cell list" where
  "row y = map (\<lambda>x. (x, y)) (if odd y then rev [1..29] else [1..29])"

definition meal :: "cell list" where
  "meal = map (\<lambda>x. (x, 10)) [16..29]
     @ concat (map row [11..19])
     @ map (\<lambda>y. (0, y)) (rev [0..19])
     @ concat (map row [0..9])
     @ map (\<lambda>x. (x, 10)) [1..11]"

definition last_food :: SnakeGame where
  "last_food = \<lparr>snake = rev meal @ [(15, 10), (14, 10), (13, 10)], food = (12, 10),
     direction = RIGHT, score = 5960, game_over = False, paused = False\<rparr>"

definition first_food :: SnakeGame where
  "first_food = \<lparr>snake = [(15, 10), (14, 10), (13, 10)], food = (16, 10),
     direction = RIGHT, score = 0, game_over = False, paused = False\<rparr>"

section \<open>Food placement\<close>

text \<open>
  One pass of the loop consumes two raw values. The loop returns exactly when some pass
  samples a cell off the snake, and then only \<open>food\<close> has changed.
\<close>

lemma drawn_eq: "drawn g = (int (shd g mod 30), int (shd (stl g) mod 20))"
  by (simp add: drawn_def randint_def WIDTH_def HEIGHT_def)

lemma place_food_unfold:
  "place_food s g =
     (if drawn g \<notin> set (snake s) then Some (s\<lparr>food := drawn g\<rparr>, stl (stl g))
      else place_food s (stl (stl g)))"
  by (subst place_food.simps) (simp add: randint_def drawn_def WIDTH_def HEIGHT_def)

lemma place_food_free:
  "drawn g \<notin> set (snake s) \<Longrightarrow> place_food s g = Some (s\<lparr>food := drawn g\<rparr>, stl (stl g))"
  by (subst place_food_unfold) simp

lemma place_food_retry:
  "drawn g \<in> set (snake s) \<Longrightarrow> place_food s g = place_food s (stl (stl g))"
  by (subst place_food_unfold) simp

lemma drawn_in_grid: "\<not> hits_wall (drawn g)"
  by (simp add: hits_wall_def drawn_eq WIDTH_def HEIGHT_def not_le)

lemma place_food_returns:
  "drawn (sdrop (2 * n) g) \<notin> set (snake s) \<Longrightarrow> \<exists>s' g'. place_food s g = Some (s', g')"
proof (induction n arbitrary: g)
  case 0
  then show ?case by (simp add: place_food_free)
next
  case (Suc n)
  have "sdrop (2 * Suc n) g = sdrop (2 * n) (stl (stl g))" by simp
  with Suc.prems Suc.IH [of "stl (stl g)"] show ?case
    by (cases "drawn g \<in> set (snake s)") (simp_all add: place_food_free place_food_retry)
qed

lemma place_food_result:
  "place_food s g = Some r \<Longrightarrow>
     \<exists>n. r = (s\<lparr>food := drawn (sdrop (2 * n) g)\<rparr>, sdrop (2 * n + 2) g)
        \<and> drawn (sdrop (2 * n) g) \<notin> set (snake s)"
proof (induction rule: place_food.raw_induct [rotated 1, consumes 1])
  case (1 pf s g r)
  have body: "(if drawn g \<notin> set (snake s) then Some (s\<lparr>food := drawn g\<rparr>, stl (stl g))
      else pf s (stl (stl g))) = Some r"
    using "1"(2) by (auto simp: randint_def drawn_def WIDTH_def HEIGHT_def split: if_splits)
  show ?case
  proof (cases "drawn g \<in> set (snake s)")
    case False
    with body have "r = (s\<lparr>food := drawn (sdrop (2 * 0) g)\<rparr>, sdrop (2 * 0 + 2) g)"
      by (simp add: numeral_2_eq_2)
    with False show ?thesis by (intro exI [of _ 0]) simp
  next
    case True
    with body have "pf s (stl (stl g)) = Some r" by simp
    from "1"(1) [OF this] obtain n where
      n: "r = (s\<lparr>food := drawn (sdrop (2 * n) (stl (stl g)))\<rparr>, sdrop (2 * n + 2) (stl (stl g)))"
        "drawn (sdrop (2 * n) (stl (stl g))) \<notin> set (snake s)"
      by blast
    have "sdrop (2 * Suc n) g = sdrop (2 * n) (stl (stl g))"
      "sdrop (2 * Suc n + 2) g = sdrop (2 * n + 2) (stl (stl g))" by simp_all
    with n show ?thesis by (intro exI [of _ "Suc n"]) (simp only: simp_thms)
  qed
qed

lemma place_food_sound:
  assumes "place_food s g = Some (s', g')"
  shows "\<exists>c. s' = s\<lparr>food := c\<rparr> \<and> c \<notin> set (snake s) \<and> \<not> hits_wall c"
proof -
  from place_food_result [OF assms] obtain n where
    "s' = s\<lparr>food := drawn (sdrop (2 * n) g)\<rparr>" "drawn (sdrop (2 * n) g) \<notin> set (snake s)"
    by auto
  then show ?thesis
    using drawn_in_grid by (intro exI [of _ "drawn (sdrop (2 * n) g)"]) simp
qed

lemma place_food_diverges:
  "(\<forall>n. drawn (sdrop (2 * n) g) \<in> set (snake s)) \<Longrightarrow> place_food s g = None"
  using place_food_result [of s g] by (cases "place_food s g") auto

section \<open>The branches of the tick\<close>

lemma update_display_nonempty: "snake s \<noteq> [] \<Longrightarrow> update_display s = Inr ()"
  by (cases "snake s") (simp_all add: update_display_def)

lemma update_display_over: "game_over s \<Longrightarrow> update_display s = Inr ()"
  by (simp add: update_display_def)

lemma displayed_nonempty: "snake s \<noteq> [] \<Longrightarrow> displayed s g = Some (Inr (s, g))"
  by (simp add: displayed_def update_display_nonempty)

lemma displayed_over: "game_over s \<Longrightarrow> displayed s g = Some (Inr (s, g))"
  by (simp add: displayed_def update_display_over)

lemma game_loop_idle: "game_over s \<or> paused s \<Longrightarrow> game_loop s g = Some (Inr (s, g))"
  by (simp add: game_loop_def)

lemma game_loop_wall:
  "\<not> game_over s \<Longrightarrow> \<not> paused s \<Longrightarrow> snake s = h # t \<Longrightarrow> hits_wall (new_head (direction s) h)
   \<Longrightarrow> game_loop s g = Some (Inr (s\<lparr>game_over := True\<rparr>, g))"
  by (simp add: game_loop_def displayed_over)

lemma game_loop_self:
  "\<not> game_over s \<Longrightarrow> \<not> paused s \<Longrightarrow> snake s = h # t \<Longrightarrow> \<not> hits_wall (new_head (direction s) h)
   \<Longrightarrow> new_head (direction s) h \<in> set (snake s)
   \<Longrightarrow> game_loop s g = Some (Inr (s\<lparr>game_over := True\<rparr>, g))"
  by (simp add: game_loop_def displayed_over)

lemma game_loop_move:
  "\<not> game_over s \<Longrightarrow> \<not> paused s \<Longrightarrow> snake s = h # t \<Longrightarrow> \<not> hits_wall (new_head (direction s) h)
   \<Longrightarrow> new_head (direction s) h \<notin> set (snake s) \<Longrightarrow> new_head (direction s) h \<noteq> food s
   \<Longrightarrow> game_loop s g =
       Some (Inr (s\<lparr>snake := new_head (direction s) h # butlast (snake s)\<rparr>, g))"
  by (simp add: game_loop_def displayed_nonempty)

lemma game_loop_eat:
  "\<not> game_over s \<Longrightarrow> \<not> paused s \<Longrightarrow> snake s = h # t \<Longrightarrow> \<not> hits_wall (new_head (direction s) h)
   \<Longrightarrow> new_head (direction s) h \<notin> set (snake s) \<Longrightarrow> new_head (direction s) h = food s
   \<Longrightarrow> game_loop s g =
       (case place_food (s\<lparr>snake := food s # snake s, score := score s + 10\<rparr>) g of
          None \<Rightarrow> None
        | Some (s2, g') \<Rightarrow> Some (Inr (s2, g')))"
  by (auto simp: game_loop_def displayed_nonempty split: option.splits dest!: place_food_sound)

lemma game_loop_returns:
  assumes "game_loop s g = Some (Inr (s', g'))"
  shows "s' = s \<or> s' = s\<lparr>game_over := True\<rparr>
     \<or> (\<exists>h t. snake s = h # t \<and> new_head (direction s) h \<notin> set (snake s)
          \<and> new_head (direction s) h \<noteq> food s
          \<and> s' = s\<lparr>snake := new_head (direction s) h # butlast (snake s)\<rparr>)
     \<or> (\<exists>c. food s \<notin> set (snake s) \<and> c \<notin> set (food s # snake s) \<and> \<not> hits_wall c
          \<and> s' = s\<lparr>snake := food s # snake s, score := score s + 10, food := c\<rparr>)"
proof (cases "game_over s \<or> paused s")
  case True
  with assms show ?thesis by (simp add: game_loop_idle)
next
  case False
  then have run: "\<not> game_over s" "\<not> paused s" by simp_all
  show ?thesis
  proof (cases "snake s")
    case Nil
    with assms run show ?thesis by (simp add: game_loop_def)
  next
    case (Cons h t)
    let ?nh = "new_head (direction s) h"
    consider (wall) "hits_wall ?nh"
      | (self) "\<not> hits_wall ?nh" "?nh \<in> set (snake s)"
      | (move) "\<not> hits_wall ?nh" "?nh \<notin> set (snake s)" "?nh \<noteq> food s"
      | (eat) "\<not> hits_wall ?nh" "?nh \<notin> set (snake s)" "?nh = food s"
      by blast
    then show ?thesis
    proof cases
      case wall
      with assms run Cons show ?thesis by (simp add: game_loop_wall)
    next
      case self
      with assms run Cons show ?thesis by (simp add: game_loop_self)
    next
      case move
      with assms run Cons show ?thesis by (simp add: game_loop_move)
    next
      case eat
      from game_loop_eat [OF run Cons eat] assms
      have "place_food (s\<lparr>snake := food s # snake s, score := score s + 10\<rparr>) g = Some (s', g')"
        by (simp split: option.splits)
      from place_food_sound [OF this] eat show ?thesis by auto
    qed
  qed
qed

text \<open>
  Eating the food when the grown snake covers every cell of the grid: no sample can be
  accepted, and the tick does not return.
\<close>

lemma game_loop_board_full:
  assumes "\<not> game_over s" and "\<not> paused s" and "snake s = h # t"
    and "new_head (direction s) h = food s"
    and "\<not> hits_wall (food s)" and "food s \<notin> set (snake s)"
    and full: "\<forall>c. \<not> hits_wall c \<longrightarrow> c \<in> set (food s # snake s)"
  shows "game_loop s g = None"
proof -
  let ?s1 = "s\<lparr>snake := food s # snake s, score := score s + 10\<rparr>"
  have "game_loop s g =
      (case place_food ?s1 g of None \<Rightarrow> None | Some (s2, g') \<Rightarrow> Some (Inr (s2, g')))"
    using assms(1-6) by (intro game_loop_eat) simp_all
  moreover have "\<forall>n. drawn (sdrop (2 * n) g) \<in> set (snake ?s1)"
  proof
    fix n
    from full drawn_in_grid [of "sdrop (2 * n) g"]
    have "drawn (sdrop (2 * n) g) \<in> set (food s # snake s)" by blast
    then show "drawn (sdrop (2 * n) g) \<in> set (snake ?s1)" by simp
  qed
  then have "place_food ?s1 g = None" by (rule place_food_diverges)
  ultimately show ?thesis by simp
qed

lemma toggle_pause_returns:
  "toggle_pause s = Inr s' \<Longrightarrow> s' = s \<or> s' = s\<lparr>paused := \<not> paused s\<rparr>"
  by (auto simp: toggle_pause_def Let_def split: if_splits sum.splits)

lemma change_direction_cases:
  "change_direction s d = s \<or> change_direction s d = s\<lparr>direction := d\<rparr>"
  by (simp add: change_direction_def)

lemma reset_game_returns:
  assumes "reset_game s g = Some (s', g')"
  shows "\<exists>c. c \<notin> {(15, 10), (14, 10), (13, 10)} \<and> \<not> hits_wall c
      \<and> s' = s\<lparr>snake := [(15, 10), (14, 10), (13, 10)], direction := RIGHT, score := 0,
                game_over := False, paused := False, food := c\<rparr>"
proof -
  let ?s0 = "s\<lparr>snake := [(15, 10), (14, 10), (13, 10)], direction := RIGHT, score := 0,
                game_over := False, paused := False\<rparr>"
  from assms have "place_food ?s0 g = Some (s', g')"
    by (simp add: reset_game_def WIDTH_def HEIGHT_def)
  from place_food_sound [OF this] obtain c where
    "s' = ?s0\<lparr>food := c\<rparr>" "c \<notin> set (snake ?s0)" "\<not> hits_wall c"
    by blast
  then show ?thesis by (intro exI [of _ c]) simp
qed

lemma run_invariant:
  assumes step: "\<And>x s g s' g'. P s \<Longrightarrow> apply_op x (s, g) = Some (Inr (s', g')) \<Longrightarrow> P s'"
  shows "P s \<Longrightarrow> run ops (s, g) = Some (Inr (s', g')) \<Longrightarrow> P s'"
proof (induction ops arbitrary: s g)
  case Nil
  then show ?case by simp
next
  case (Cons x ops)
  from Cons.prems(2) obtain s1 g1 where
    one: "apply_op x (s, g) = Some (Inr (s1, g1))" and rest: "run ops (s1, g1) = Some (Inr (s', g'))"
    by (auto split: option.splits sum.splits)
  from step [OF Cons.prems(1) one] have "P s1" .
  from Cons.IH [OF this rest] show ?case .
qed

section \<open>Single operations and runs\<close>

text \<open>What an operation that returns can have done to the state.\<close>

lemma apply_op_returns:
  assumes "apply_op x (s, g) = Some (Inr (s', g'))"
  shows "s' = s \<or> s' = s\<lparr>game_over := True\<rparr> \<or> s' = s\<lparr>paused := \<not> paused s\<rparr>
     \<or> (\<exists>d. s' = s\<lparr>direction := d\<rparr>)
     \<or> (\<exists>h t. snake s = h # t \<and> new_head (direction s) h \<notin> set (snake s)
          \<and> new_head (direction s) h \<noteq> food s
          \<and> s' = s\<lparr>snake := new_head (direction s) h # butlast (snake s)\<rparr>)
     \<or> (\<exists>c. food s \<notin> set (snake s) \<and> c \<notin> set (food s # snake s) \<and> \<not> hits_wall c
          \<and> s' = s\<lparr>snake := food s # snake s, score := score s + 10, food := c\<rparr>)
     \<or> (\<exists>c. c \<notin> {(15, 10), (14, 10), (13, 10)} \<and> \<not> hits_wall c
          \<and> s' = s\<lparr>snake := [(15, 10), (14, 10), (13, 10)], direction := RIGHT, score := 0,
                game_over := False, paused := False, food := c\<rparr>)"
proof (cases x)
  case Step
  with assms have "game_loop s g = Some (Inr (s', g'))" by simp
  from game_loop_returns [OF this] show ?thesis by blast
next
  case (SetDirection d)
  with assms have "s' = change_direction s d" by simp
  with change_direction_cases [of s d] show ?thesis by auto
next
  case TogglePause
  with assms have "toggle_pause s = Inr s'" by (simp split: sum.splits)
  from toggle_pause_returns [OF this] show ?thesis by blast
next
  case Reset
  with assms obtain s1 g1 where r: "reset_game s g = Some (s1, g1)" and d: "displayed s1 g1 = Some (Inr (s', g'))"
    by (auto split: option.splits)
  from d have "s' = s1" by (simp add: displayed_def split: sum.splits)
  with reset_game_returns [OF r] show ?thesis by blast
qed

lemma apply_op_distinct:
  assumes "apply_op x (s, g) = Some (Inr (s', g'))" and "distinct (snake s)"
  shows "distinct (snake s')"
  using apply_op_returns [OF assms(1)] assms(2)
  by (auto simp: distinct_butlast dest: in_set_butlastD)

lemma apply_op_food_off_snake:
  assumes "apply_op x (s, g) = Some (Inr (s', g'))" and "food s \<notin> set (snake s)"
  shows "food s' \<notin> set (snake s')"
  using apply_op_returns [OF assms(1)] assms(2)
  by (auto dest: in_set_butlastD split: if_splits)

lemma apply_op_score:
  assumes "apply_op x (s, g) = Some (Inr (s', g'))"
    and "score s = 10 * (int (length (snake s)) - 3) \<and> 3 \<le> length (snake s)"
  shows "score s' = 10 * (int (length (snake s')) - 3) \<and> 3 \<le> length (snake s')"
  using apply_op_returns [OF assms(1)] assms(2)
  by auto

text \<open>
  With a non-empty snake no operation raises, and the snake stays non-empty: a run from
  a state returned by \<^verbatim>\<open>reset_game\<close> either returns or stays in \<^verbatim>\<open>place_food\<close>.
\<close>

lemma apply_op_no_error:
  assumes "snake s \<noteq> []"
  shows "apply_op x (s, g) \<noteq> Some (Inl e)"
proof (cases x)
  case Step
  from assms obtain h t where ht: "snake s = h # t" by (cases "snake s") auto
  show ?thesis
  proof
    assume "apply_op x (s, g) = Some (Inl e)"
    with Step ht show False
      by (auto simp: game_loop_def Let_def displayed_over displayed_nonempty
          split: if_splits option.splits dest!: place_food_sound)
  qed
next
  case (SetDirection d)
  then show ?thesis by simp
next
  case TogglePause
  with assms show ?thesis
    by (simp add: toggle_pause_def update_display_nonempty update_display_over)
next
  case Reset
  show ?thesis
  proof
    assume "apply_op x (s, g) = Some (Inl e)"
    with Reset obtain s1 g1 where r: "reset_game s g = Some (s1, g1)"
      and d: "displayed s1 g1 = Some (Inl e)"
      by (auto split: option.splits)
    from reset_game_returns [OF r] have "snake s1 \<noteq> []" by auto
    with d show False by (simp add: displayed_nonempty)
  qed
qed

lemma apply_op_nonempty:
  assumes "apply_op x (s, g) = Some (Inr (s', g'))" and "snake s \<noteq> []"
  shows "snake s' \<noteq> []"
  using apply_op_returns [OF assms(1)] assms(2) by auto

lemma run_no_error:
  "snake s \<noteq> [] \<Longrightarrow> run ops (s, g) \<noteq> Some (Inl e)"
proof (induction ops arbitrary: s g)
  case Nil
  then show ?case by simp
next
  case (Cons x ops)
  show ?case
  proof (cases "apply_op x (s, g)")
    case None
    then show ?thesis by simp
  next
    case (Some r)
    show ?thesis
    proof (cases r)
      case (Inl e')
      with Some apply_op_no_error [OF Cons.prems, of x g e'] show ?thesis by simp
    next
      case (Inr c)
      obtain s' g' where c: "c = (s', g')" by (cases c)
      with Some Inr have "apply_op x (s, g) = Some (Inr (s', g'))" by simp
      from apply_op_nonempty [OF this Cons.prems] have "snake s' \<noteq> []" .
      from Cons.IH [OF this, of g'] Some Inr c show ?thesis by simp
    qed
  qed
qed

text \<open>The equations that evaluate a run on a concrete state and random source.\<close>

lemmas run_eval =
  reset_game_def game_loop_def displayed_def update_display_def hits_wall_def WIDTH_def
  HEIGHT_def place_food_free place_food_retry drawn_eq change_direction_def opposites_def
  toggle_pause_def

section \<open>Playing the board full\<close>

text \<open>
  One key press and one tick that eats the food, when the random source samples a free
  cell next; then a whole path of such moves.
\<close>

lemma drawn_feed:
  "\<not> hits_wall c \<Longrightarrow> drawn (nat (fst c) ## nat (snd c) ## g) = c"
  by (cases c) (simp add: drawn_eq hits_wall_def WIDTH_def HEIGHT_def not_le zmod_int)

lemma opposite_leads_back:
  "opposites d = Some (heading h c) \<Longrightarrow> new_head (heading h c) h = c \<Longrightarrow> new_head d c = h"
  by (cases h; cases d; cases "heading h c") (auto simp: opposites_def)

lemma eat_step:
  assumes run: "\<not> game_over s" "\<not> paused s" and sn: "snake s = h # t"
    and food: "food s = c"
    and link: "new_head (heading h c) h = c"
    and c: "\<not> hits_wall c" "c \<notin> set (snake s)"
    and n: "\<not> hits_wall n" "n \<notin> set (c # snake s)"
    and behind: "\<forall>d. opposites d = Some (direction s) \<longrightarrow> new_head d h \<in> set (snake s)"
  shows "run [SetDirection (heading h c), Step] (s, feed (n # r) g) =
     Some (Inr (s\<lparr>direction := heading h c, snake := c # snake s, score := score s + 10,
                   food := n\<rparr>, feed r g))"
proof -
  let ?d = "heading h c"
  let ?sa = "s\<lparr>direction := ?d\<rparr>"
  have "opposites ?d \<noteq> Some (direction s)"
  proof
    assume "opposites ?d = Some (direction s)"
    with behind have "new_head ?d h \<in> set (snake s)" by blast
    with link c(2) show False by simp
  qed
  with run(1) have turn: "change_direction s ?d = ?sa"
    by (simp add: change_direction_def)
  let ?s1 = "?sa\<lparr>snake := food ?sa # snake ?sa, score := score ?sa + 10\<rparr>"
  have eat: "game_loop ?sa (feed (n # r) g) =
      (case place_food ?s1 (feed (n # r) g) of
         None \<Rightarrow> None | Some (s2, g') \<Rightarrow> Some (Inr (s2, g')))"
    using run sn food link c by (intro game_loop_eat) simp_all
  have "drawn (feed (n # r) g) \<notin> set (snake ?s1)"
    using n food by (simp add: drawn_feed)
  then have "place_food ?s1 (feed (n # r) g) =
      Some (?s1\<lparr>food := drawn (feed (n # r) g)\<rparr>, stl (stl (feed (n # r) g)))"
    by (rule place_food_free)
  with eat n(1) food have "game_loop ?sa (feed (n # r) g) =
      Some (Inr (s\<lparr>direction := ?d, snake := c # snake s, score := score s + 10, food := n\<rparr>,
                 feed r g))"
    by (simp add: drawn_feed)
  with turn show ?thesis by simp
qed

lemma eat_along:
  assumes "\<not> game_over s" and "\<not> paused s" and "snake s = h # t"
    and "food s = hd (cs @ [f])"
    and "well_linked (h # cs @ [f])"
    and "distinct (cs @ [f])" and "set (cs @ [f]) \<inter> set (snake s) = {}"
    and "\<forall>c \<in> set (cs @ [f]). \<not> hits_wall c"
    and "\<forall>d. opposites d = Some (direction s) \<longrightarrow> new_head d h \<in> set (snake s)"
  shows "run (steer h cs) (s, feed (tl (cs @ [f])) g) =
     Some (Inr (s\<lparr>snake := rev cs @ snake s, food := f,
                   score := score s + 10 * int (length cs),
                   direction := (if cs = [] then direction s
                                 else heading (last (butlast (h # cs))) (last cs))\<rparr>, g))"
  using assms
proof (induction cs arbitrary: s h t)
  case Nil
  then show ?case by simp
next
  case (Cons c cs)
  obtain n r where nr: "cs @ [f] = n # r" by (cases "cs @ [f]") auto
  let ?s' = "s\<lparr>direction := heading h c, snake := c # snake s, score := score s + 10, food := n\<rparr>"
  have n_in: "n \<in> set (cs @ [f])" using nr by simp
  have first: "run [SetDirection (heading h c), Step] (s, feed (n # r) g) = Some (Inr (?s', feed r g))"
  proof (rule eat_step)
    show "\<not> game_over s" "\<not> paused s" "snake s = h # t" by fact+
    show "food s = c" using Cons.prems(4) by simp
    show "new_head (heading h c) h = c" using Cons.prems(5) by simp
    show "\<not> hits_wall c" using Cons.prems(8) by simp
    show "c \<notin> set (snake s)" using Cons.prems(7) by auto
    show "\<not> hits_wall n" using Cons.prems(8) n_in by auto
    show "n \<notin> set (c # snake s)" using Cons.prems(6,7) n_in by auto
    show "\<forall>d. opposites d = Some (direction s) \<longrightarrow> new_head d h \<in> set (snake s)" by fact
  qed
  have rest: "run (steer c cs) (?s', feed (tl (cs @ [f])) g) =
     Some (Inr (?s'\<lparr>snake := rev cs @ snake ?s', food := f,
                   score := score ?s' + 10 * int (length cs),
                   direction := (if cs = [] then direction ?s'
                                 else heading (last (butlast (c # cs))) (last cs))\<rparr>, g))"
  proof (rule Cons.IH)
    show "\<not> game_over ?s'" "\<not> paused ?s'" using Cons.prems(1,2) by simp_all
    show "snake ?s' = c # snake s" by simp
    show "food ?s' = hd (cs @ [f])" using nr by simp
    show "well_linked (c # cs @ [f])" using Cons.prems(5) by simp
    show "distinct (cs @ [f])" using Cons.prems(6) by simp
    show "set (cs @ [f]) \<inter> set (snake ?s') = {}" using Cons.prems(6,7) by auto
    show "\<forall>c \<in> set (cs @ [f]). \<not> hits_wall c" using Cons.prems(8) by simp
    show "\<forall>d. opposites d = Some (direction ?s') \<longrightarrow> new_head d c \<in> set (snake ?s')"
    proof (intro allI impI)
      fix d assume "opposites d = Some (direction ?s')"
      then have "opposites d = Some (heading h c)" by simp
      moreover have "new_head (heading h c) h = c" using Cons.prems(5) by simp
      ultimately have "new_head d c = h" by (rule opposite_leads_back)
      with Cons.prems(3) show "new_head d c \<in> set (snake ?s')" by simp
    qed
  qed
  have "run (steer h (c # cs)) (s, feed (tl ((c # cs) @ [f])) g) =
      run (steer c cs) (?s', feed r g)"
    using first nr by (simp split: option.splits sum.splits)
  also have "feed r g = feed (tl (cs @ [f])) g" using nr by simp
  finally show ?case using rest by (cases "cs = []") simp_all
qed

text \<open>The path is made of neighbouring, distinct cells of the grid.\<close>

lemma set_row: "set (row y) = {1..29} \<times> {y}"
  by (auto simp: row_def simp del: upto_rec_numeral)

lemma length_row: "length (row y) = 29"
  by (simp add: row_def del: upto_rec_numeral)

lemma in_meal:
  "(a, b) \<in> set meal \<longleftrightarrow>
     0 \<le> a \<and> a \<le> 29 \<and> 0 \<le> b \<and> b \<le> 19 \<and> \<not> (b = 10 \<and> 12 \<le> a \<and> a \<le> 15)"
  unfolding meal_def
  apply (simp add: set_row image_iff del: upto_rec_numeral)
  apply presburger
  done

lemma set_meal: "set meal = {0..29} \<times> {0..19} - {(12, 10), (13, 10), (14, 10), (15, 10)}"
proof -
  have "c \<in> set meal \<longleftrightarrow> c \<in> {0..29} \<times> {0..19} - {(12, 10), (13, 10), (14, 10), (15, 10)}" for c
    by (cases c) (auto simp: in_meal)
  then show ?thesis by blast
qed

lemma length_meal: "length meal = 596"
  unfolding meal_def
  by (simp add: length_concat comp_def length_row sum_list_triv del: upto_rec_numeral)

lemma distinct_meal: "distinct meal"
proof (rule card_distinct)
  have "card (set meal) =
      card ({0..29 :: int} \<times> {0..19 :: int}) - card {(12, 10), (13, 10), (14, 10), (15 :: int, 10 :: int)}"
    unfolding set_meal by (rule card_Diff_subset) auto
  then show "card (set meal) = length meal"
    by (simp add: length_meal)
qed

lemma meal_linked: "well_linked ((15, 10) # meal @ [(12, 10)])"
  by (simp add: meal_def row_def heading_def upto_rec1)

lemma meal_ends:
  "hd (meal @ [(12, 10)]) = (16, 10)"
  "meal \<noteq> []"
  "heading (last (butlast ((15, 10) # meal))) (last meal) = RIGHT"
proof -
  have e: "[1..11] = [1..9] @ [10, 11 :: int]" by (simp add: upto_rec1)
  show "hd (meal @ [(12, 10)]) = (16, 10)" "meal \<noteq> []"
    by (simp_all add: meal_def)
  have "meal = (map (\<lambda>x. (x, 10)) [16..29]
     @ concat (map row [11..19])
     @ map (\<lambda>y. (0, y)) (rev [0..19])
     @ concat (map row [0..9])
     @ map (\<lambda>x. (x, 10)) [1..9] @ [(10, 10)]) @ [(11, 10)]"
    unfolding meal_def e by simp
  then obtain pre where pre: "meal = (pre @ [(10, 10)]) @ [(11, 10)]"
    by (metis append.assoc)
  have "last meal = (11, 10)"
    by (subst pre) simp
  moreover have "butlast ((15, 10) # meal) = ((15, 10) # pre) @ [(10, 10)]"
    by (subst pre) (simp add: butlast_append)
  then have "last (butlast ((15, 10) # meal)) = (10, 10)"
    by (simp only: last_snoc)
  ultimately show "heading (last (butlast ((15, 10) # meal))) (last meal) = RIGHT"
    by (simp add: heading_def)
qed

text \<open>
  The state before the last food is eaten is reached in play, and there the tick does
  not return, whatever the random source.
\<close>

lemma last_food_head: "hd (snake last_food) = (11, 10)" "snake last_food \<noteq> []"
proof -
  have "hd (rev meal) = last meal" using meal_ends(2) by (simp add: hd_rev)
  moreover have "last meal = (11, 10)"
  proof -
    have e: "[1..11] = [1..10] @ [11 :: int]" by (simp add: upto_rec1)
    show ?thesis unfolding meal_def e by simp
  qed
  ultimately show "hd (snake last_food) = (11, 10)"
    using meal_ends(2) by (simp add: last_food_def)
  show "snake last_food \<noteq> []" by (simp add: last_food_def)
qed

lemma last_food_full:
  "\<not> hits_wall c \<Longrightarrow> c \<in> set (food last_food # snake last_food)"
  by (cases c) (auto simp: last_food_def set_meal hits_wall_def WIDTH_def HEIGHT_def)

lemma last_food_off_snake: "food last_food \<notin> set (snake last_food)"
  by (simp add: last_food_def set_meal)

lemma last_food_hangs: "game_loop last_food g = None"
proof -
  obtain t where "snake last_food = (11, 10) # t"
    using last_food_head by (cases "snake last_food") auto
  then show ?thesis
  proof (rule game_loop_board_full [rotated 2])
    show "\<not> game_over last_food" "\<not> paused last_food" by (simp_all add: last_food_def)
    show "new_head (direction last_food) (11, 10) = food last_food" by (simp add: last_food_def)
    show "\<not> hits_wall (food last_food)"
      by (simp add: last_food_def hits_wall_def WIDTH_def HEIGHT_def)
    show "food last_food \<notin> set (snake last_food)" by (rule last_food_off_snake)
    show "\<forall>c. \<not> hits_wall c \<longrightarrow> c \<in> set (food last_food # snake last_food)"
      using last_food_full by blast
  qed
qed

lemma first_food_reset:
  "reset_game scenario (feed (meal @ [(12, 10)]) (sconst 0)) =
     Some (first_food, feed (tl (meal @ [(12, 10)])) (sconst 0))"
proof -
  obtain r where r: "meal @ [(12, 10)] = (16, 10) # r"
    using meal_ends(1) by (cases "meal @ [(12, 10)]") auto
  have "drawn (feed ((16, 10) # r) (sconst 0)) = (16, 10)"
    by (simp add: drawn_eq)
  then show ?thesis
    unfolding r
    by (simp add: reset_game_def WIDTH_def HEIGHT_def place_food_free scenario_def first_food_def)
qed

lemma last_food_reached:
  "run (steer (15, 10) meal) (first_food, feed (tl (meal @ [(12, 10)])) (sconst 0)) =
     Some (Inr (last_food, sconst 0))"
proof -
  have "run (steer (15, 10) meal) (first_food, feed (tl (meal @ [(12, 10)])) (sconst 0)) =
     Some (Inr (first_food\<lparr>snake := rev meal @ snake first_food, food := (12, 10),
                   score := score first_food + 10 * int (length meal),
                   direction := (if meal = [] then direction first_food
                                 else heading (last (butlast ((15, 10) # meal))) (last meal))\<rparr>,
                sconst 0))"
  proof (rule eat_along)
    show "\<not> game_over first_food" "\<not> paused first_food"
      "snake first_food = (15, 10) # [(14, 10), (13, 10)]"
      by (simp_all add: first_food_def)
    show "food first_food = hd (meal @ [(12, 10)])"
      using meal_ends(1) by (simp add: first_food_def)
    show "well_linked ((15, 10) # meal @ [(12, 10)])" by (rule meal_linked)
    show "distinct (meal @ [(12, 10)])" by (simp add: distinct_meal set_meal)
    show "set (meal @ [(12, 10)]) \<inter> set (snake first_food) = {}"
      by (simp add: first_food_def set_meal)
    show "\<forall>c\<in>set (meal @ [(12, 10)]). \<not> hits_wall c"
      by (auto simp: set_meal hits_wall_def WIDTH_def HEIGHT_def)
    show "\<forall>d. opposites d = Some (direction first_food) \<longrightarrow>
        new_head d (15, 10) \<in> set (snake first_food)"
    proof (intro allI impI)
      fix d assume "opposites d = Some (direction first_food)"
      then have "d = LEFT" by (cases d) (simp_all add: opposites_def first_food_def)
      then show "new_head d (15, 10) \<in> set (snake first_food)" by (simp add: first_food_def)
    qed
  qed
  also have "first_food\<lparr>snake := rev meal @ snake first_food, food := (12, 10),
                   score := score first_food + 10 * int (length meal),
                   direction := (if meal = [] then direction first_food
                                 else heading (last (butlast ((15, 10) # meal))) (last meal))\<rparr>
      = last_food"
    using meal_ends(2,3) by (simp add: first_food_def last_food_def length_meal)
  finally show ?thesis .
qed

section \<open>The tick and the direction control\<close>

text \<open>
  The tick that eats the food. In a running state (not over, not paused) whose new head
  cell is the food cell, inside the grid and off the snake, every result of the tick
  is a state whose snake is the old snake with the new head prepended and the tail
  kept (length plus one) and whose score is ten higher. The tick ends in
  \<^verbatim>\<open>place_food\<close>: it returns as soon as the random source samples a cell off the grown
  snake.
\<close>

lemma growth_on_food:
  assumes "\<not> game_over s" and "\<not> paused s" and "snake s = h # t"
    and "new_head (direction s) h = food s"
    and "\<not> hits_wall (food s)" and "food s \<notin> set (snake s)"
  shows "(\<forall>r. game_loop s g = Some r \<longrightarrow>
            (\<exists>s' g'. r = Inr (s', g') \<and> snake s' = food s # snake s
               \<and> length (snake s') = length (snake s) + 1 \<and> score s' = score s + 10))
       \<and> ((\<exists>n. drawn (sdrop (2 * n) g) \<notin> set (food s # snake s)) \<longrightarrow> game_loop s g \<noteq> None)"
proof -
  let ?s1 = "s\<lparr>snake := food s # snake s, score := score s + 10\<rparr>"
  have eat: "game_loop s g =
      (case place_food ?s1 g of None \<Rightarrow> None | Some (s2, g') \<Rightarrow> Some (Inr (s2, g')))"
    using assms by (intro game_loop_eat) simp_all
  have "\<exists>s' g'. r = Inr (s', g') \<and> snake s' = food s # snake s
      \<and> length (snake s') = length (snake s) + 1 \<and> score s' = score s + 10"
    if "game_loop s g = Some r" for r
  proof -
    from that eat obtain s2 g' where placed: "place_food ?s1 g = Some (s2, g')" and r: "r = Inr (s2, g')"
      by (auto split: option.splits)
    from place_food_sound [OF placed] obtain c where "s2 = ?s1\<lparr>food := c\<rparr>" by blast
    with r show ?thesis by simp
  qed
  moreover have "game_loop s g \<noteq> None" if "\<exists>n. drawn (sdrop (2 * n) g) \<notin> set (food s # snake s)"
  proof -
    from that obtain n where "drawn (sdrop (2 * n) g) \<notin> set (snake ?s1)" by auto
    from place_food_returns [OF this] eat show ?thesis by auto
  qed
  ultimately show ?thesis by blast
qed

lemma growth_on_food_example:
  "\<not> game_over before_food \<and> \<not> paused before_food
   \<and> new_head (direction before_food) (19, 10) = food before_food
   \<and> game_loop before_food (sconst 0) =
       Some (Inr (\<lparr>snake = [(20, 10), (19, 10), (18, 10), (17, 10)], food = (0, 0),
                   direction = RIGHT, score = 10, game_over = False, paused = False\<rparr>, sconst 0))
   \<and> (\<exists>s' g'. game_loop before_food (sconst 0) = Some (Inr (s', g'))
         \<and> length (snake s') = 4 \<and> score s' = 10)"
proof -
  have run: "game_loop before_food (sconst 0) =
       Some (Inr (\<lparr>snake = [(20, 10), (19, 10), (18, 10), (17, 10)], food = (0, 0),
                   direction = RIGHT, score = 10, game_over = False, paused = False\<rparr>, sconst 0))"
    by (simp add: game_loop_def before_food_def hits_wall_def WIDTH_def HEIGHT_def
        place_food_free drawn_eq displayed_def update_display_def)
  from growth_on_food [of before_food "(19, 10)" "[(18, 10), (17, 10)]" "sconst 0"]
  have "\<exists>s' g'. game_loop before_food (sconst 0) = Some (Inr (s', g'))
         \<and> length (snake s') = length (snake before_food) + 1 \<and> score s' = score before_food + 10"
    using run by (simp add: before_food_def hits_wall_def WIDTH_def HEIGHT_def)
  with run show ?thesis by (simp add: before_food_def)
qed

text \<open>
  Claim C1. In every running state whose new head cell is the food cell and causes no
  wall or self collision, the tick is to grow the snake by exactly one cell and to add
  exactly ten to the score. The code fails to do so when the food is on the last free
  cell. The state \<open>last_food\<close> is reached from a reset by 596 ticks that each eat; it is
  running, its snake has 599 distinct cells, and its new head cell \<open>(12, 10)\<close> is the
  food cell, inside the grid and off the snake. There the tick prepends the head, adds
  ten and calls \<^verbatim>\<open>place_food\<close>, whose loop finds no free cell: the tick returns for no
  random source.
\<close>

theorem tick_hangs_on_last_food:
  "reset_game scenario (feed (meal @ [(12, 10)]) (sconst 0)) =
     Some (first_food, feed (tl (meal @ [(12, 10)])) (sconst 0))
   \<and> run (steer (15, 10) meal) (first_food, feed (tl (meal @ [(12, 10)])) (sconst 0)) =
     Some (Inr (last_food, sconst 0))
   \<and> \<not> game_over last_food \<and> \<not> paused last_food
   \<and> length (snake last_food) = 599 \<and> distinct (snake last_food)
   \<and> new_head (direction last_food) (hd (snake last_food)) = food last_food
   \<and> \<not> hits_wall (food last_food)
   \<and> food last_food \<notin> set (snake last_food)
   \<and> game_loop last_food (sconst 0) = None
   \<and> range (game_loop last_food) = {None}"
proof -
  have "range (game_loop last_food) = {None}"
    using last_food_hangs by auto
  moreover have "new_head (direction last_food) (hd (snake last_food)) = food last_food"
    unfolding last_food_head(1) by (simp add: last_food_def)
  moreover have "length (snake last_food) = 599"
    by (simp add: last_food_def length_meal)
  moreover have "distinct (snake last_food)"
    by (simp add: last_food_def distinct_meal set_meal)
  moreover have "\<not> hits_wall (food last_food)"
    by (simp add: last_food_def hits_wall_def WIDTH_def HEIGHT_def)
  moreover have "\<not> game_over last_food \<and> \<not> paused last_food"
    by (simp add: last_food_def)
  ultimately show ?thesis
    using first_food_reset last_food_reached last_food_off_snake last_food_hangs [of "sconst 0"]
    by blast
qed

text \<open>
  Claim C2. In a running state whose new head cell lies outside
  \<open>[0, WIDTH) \<times> [0, HEIGHT)\<close> the tick returns the same state with \<open>game_over\<close> set
  and nothing else changed: snake, food, score, direction and paused are as before,
  and no random value is consumed.
\<close>

theorem wall_collision_only_ends_game:
  assumes "\<not> game_over s" and "\<not> paused s" and "snake s = h # t"
    and "hits_wall (new_head (direction s) h)"
  shows "game_loop s g = Some (Inr (s\<lparr>game_over := True\<rparr>, g))"
  using assms by (rule game_loop_wall)

theorem wall_collision_only_ends_game_witness:
  "\<not> game_over at_wall \<and> \<not> paused at_wall \<and> snake at_wall = (0, 10) # [(1, 10), (2, 10)]
   \<and> hits_wall (new_head (direction at_wall) (0, 10))
   \<and> game_loop at_wall (sconst 0) =
       Some (Inr (\<lparr>snake = [(0, 10), (1, 10), (2, 10)], food = (20, 10), direction = LEFT,
                   score = 0, game_over = True, paused = False\<rparr>, sconst 0))"
  using wall_collision_only_ends_game [of at_wall "(0, 10)" "[(1, 10), (2, 10)]" "sconst 0"]
  by (simp add: at_wall_def hits_wall_def WIDTH_def HEIGHT_def)

text \<open>
  Claim C3. In a running state whose new head cell is inside the grid and is a cell of
  the snake as it is before the move, the tick sets \<open>game_over\<close> and leaves the snake
  (and everything else) unchanged. The tail cell is a cell of that snake, so stepping
  into the current tail cell is fatal; the example below does exactly that.
\<close>

theorem self_collision_ends_game:
  assumes "\<not> game_over s" and "\<not> paused s" and "snake s = h # t"
    and "\<not> hits_wall (new_head (direction s) h)"
    and "new_head (direction s) h \<in> set (snake s)"
  shows "game_loop s g = Some (Inr (s\<lparr>game_over := True\<rparr>, g))"
  using assms by (rule game_loop_self)

theorem self_collision_ends_game_witness:
  "\<not> game_over coiled \<and> \<not> paused coiled \<and> snake coiled = (5, 5) # [(5, 6), (6, 6), (6, 5)]
   \<and> \<not> hits_wall (new_head (direction coiled) (5, 5))
   \<and> new_head (direction coiled) (5, 5) = last (snake coiled)
   \<and> new_head (direction coiled) (5, 5) \<notin> set (butlast (snake coiled))
   \<and> game_loop coiled (sconst 0) =
       Some (Inr (\<lparr>snake = [(5, 5), (5, 6), (6, 6), (6, 5)], food = (20, 10), direction = RIGHT,
                   score = 10, game_over = True, paused = False\<rparr>, sconst 0))"
  using self_collision_ends_game [of coiled "(5, 5)" "[(5, 6), (6, 6), (6, 5)]" "sconst 0"]
  by (simp add: coiled_def hits_wall_def WIDTH_def HEIGHT_def)

text \<open>
  Claim C4. \<^verbatim>\<open>change_direction\<close> does nothing when the game is over; otherwise it leaves
  the state as it is when the requested direction is the opposite of the current one,
  and sets \<open>direction\<close> to the request in every other case. In particular a request for
  the opposite of the current direction never changes the state.
\<close>

theorem change_direction_guard:
  "change_direction s d =
     (if game_over s then s
      else if opposites (direction s) = Some d then s
      else s\<lparr>direction := d\<rparr>)
   \<and> (opposites (direction s) = Some d \<longrightarrow> change_direction s d = s)"
  by (cases d; cases "direction s") (simp_all add: change_direction_def opposites_def)

theorem change_direction_guard_witness:
  "opposites (direction scenario) = Some LEFT \<and> change_direction scenario LEFT = scenario
   \<and> direction (change_direction scenario LEFT) = RIGHT
   \<and> change_direction scenario UP = scenario\<lparr>direction := UP\<rparr>
   \<and> change_direction (scenario\<lparr>game_over := True\<rparr>) UP = scenario\<lparr>game_over := True\<rparr>"
  using change_direction_guard [of scenario LEFT] change_direction_guard [of scenario UP]
    change_direction_guard [of "scenario\<lparr>game_over := True\<rparr>" UP]
  by (simp add: scenario_def opposites_def)

text \<open>
  Claim C6. When the game is paused or over, the tick returns the whole state (and the
  random source) unchanged.
\<close>

theorem step_is_identity_when_idle:
  "paused s \<or> game_over s \<Longrightarrow> game_loop s g = Some (Inr (s, g))"
  by (rule game_loop_idle) blast

theorem step_is_identity_when_idle_witness:
  "(paused (scenario\<lparr>paused := True\<rparr>) \<or> game_over (scenario\<lparr>paused := True\<rparr>))
   \<and> game_loop (scenario\<lparr>paused := True\<rparr>) (sconst 0) = Some (Inr (scenario\<lparr>paused := True\<rparr>, sconst 0))
   \<and> game_loop (at_wall\<lparr>game_over := True\<rparr>) (sconst 0) = Some (Inr (at_wall\<lparr>game_over := True\<rparr>, sconst 0))"
  using step_is_identity_when_idle [of "scenario\<lparr>paused := True\<rparr>" "sconst 0"]
    step_is_identity_when_idle [of "at_wall\<lparr>game_over := True\<rparr>" "sconst 0"]
  by simp

text \<open>
  Claim C8. In a running state whose new head cell is inside the grid, off the snake
  and not the food cell, the tick prepends the new head and removes the tail: the
  length of the snake and the score are unchanged.
\<close>

theorem plain_move_keeps_length_and_score:
  assumes "\<not> game_over s" and "\<not> paused s" and "snake s = h # t"
    and "\<not> hits_wall (new_head (direction s) h)"
    and "new_head (direction s) h \<notin> set (snake s)"
    and "new_head (direction s) h \<noteq> food s"
  shows "\<exists>s'. game_loop s g = Some (Inr (s', g))
     \<and> snake s' = new_head (direction s) h # butlast (snake s)
     \<and> length (snake s') = length (snake s) \<and> score s' = score s"
proof -
  from assms have "game_loop s g =
      Some (Inr (s\<lparr>snake := new_head (direction s) h # butlast (snake s)\<rparr>, g))"
    by (rule game_loop_move)
  with assms(3) show ?thesis by simp
qed

theorem plain_move_keeps_length_and_score_witness:
  "\<not> game_over scenario \<and> \<not> paused scenario \<and> snake scenario = (15, 10) # [(14, 10), (13, 10)]
   \<and> \<not> hits_wall (new_head (direction scenario) (15, 10))
   \<and> new_head (direction scenario) (15, 10) \<notin> set (snake scenario)
   \<and> new_head (direction scenario) (15, 10) \<noteq> food scenario
   \<and> (\<exists>s'. game_loop scenario (sconst 0) = Some (Inr (s', sconst 0))
        \<and> snake s' = [(16, 10), (15, 10), (14, 10)] \<and> length (snake s') = 3 \<and> score s' = 0)"
  using plain_move_keeps_length_and_score [of scenario "(15, 10)" "[(14, 10), (13, 10)]" "sconst 0"]
  by (simp add: scenario_def hits_wall_def WIDTH_def HEIGHT_def numeral_3_eq_3)

text \<open>
  Claim C9. When the game is not over and the direction is \<open>d\<close>, a request for a
  direction \<open>p\<close> perpendicular to \<open>d\<close> (neither \<open>d\<close> nor its opposite) followed by a
  request for the opposite of \<open>d\<close> leaves the direction at the opposite of \<open>d\<close>: the
  second request is checked against \<open>p\<close>.
\<close>

theorem two_turns_reverse:
  assumes "\<not> game_over s" and "opposites (direction s) = Some r"
    and "p \<noteq> direction s" and "p \<noteq> r"
  shows "direction (change_direction s p) = p
     \<and> change_direction (change_direction s p) r = s\<lparr>direction := r\<rparr>"
  using assms
  by (cases p; cases r; cases "direction s") (simp_all add: change_direction_def opposites_def)

theorem two_turns_reverse_witness:
  "\<not> game_over scenario \<and> opposites (direction scenario) = Some LEFT
   \<and> UP \<noteq> direction scenario \<and> UP \<noteq> LEFT
   \<and> direction (change_direction scenario UP) = UP
   \<and> direction (change_direction (change_direction scenario UP) LEFT) = LEFT
   \<and> change_direction scenario LEFT = scenario"
  using two_turns_reverse [of scenario LEFT UP]
  by (simp add: scenario_def opposites_def change_direction_def)

section \<open>Reset and the invariants of reachable states\<close>

text \<open>
  Claim C7. Whatever the state before (mid-game, paused or over), every state that
  \<^verbatim>\<open>reset_game\<close> returns has the snake
  \<open>[(WIDTH div 2, HEIGHT div 2), (WIDTH div 2 - 1, HEIGHT div 2), (WIDTH div 2 - 2, HEIGHT div 2)]\<close>,
  which is \<open>[(15, 10), (14, 10), (13, 10)]\<close> (length 3, head rightmost), direction
  \<open>RIGHT\<close>, score 0, \<open>game_over\<close> and \<open>paused\<close> false, and a food cell inside the grid
  and off the snake. The call returns as soon as the random source samples a cell that
  is not one of the three snake cells.
\<close>

theorem reset_game_establishes_start:
  "(\<forall>s' g'. reset_game s g = Some (s', g') \<longrightarrow>
      snake s' = [(WIDTH div 2, HEIGHT div 2), (WIDTH div 2 - 1, HEIGHT div 2),
                  (WIDTH div 2 - 2, HEIGHT div 2)]
    \<and> snake s' = [(15, 10), (14, 10), (13, 10)] \<and> length (snake s') = 3
    \<and> direction s' = RIGHT \<and> score s' = 0 \<and> \<not> game_over s' \<and> \<not> paused s'
    \<and> 0 \<le> fst (food s') \<and> fst (food s') < WIDTH \<and> 0 \<le> snd (food s') \<and> snd (food s') < HEIGHT
    \<and> food s' \<notin> set (snake s'))
   \<and> ((\<exists>n. drawn (sdrop (2 * n) g) \<notin> {(15, 10), (14, 10), (13, 10)})
        \<longrightarrow> (\<exists>s' g'. reset_game s g = Some (s', g')))"
proof -
  have "snake s' = [(WIDTH div 2, HEIGHT div 2), (WIDTH div 2 - 1, HEIGHT div 2),
                  (WIDTH div 2 - 2, HEIGHT div 2)]
    \<and> snake s' = [(15, 10), (14, 10), (13, 10)] \<and> length (snake s') = 3
    \<and> direction s' = RIGHT \<and> score s' = 0 \<and> \<not> game_over s' \<and> \<not> paused s'
    \<and> 0 \<le> fst (food s') \<and> fst (food s') < WIDTH \<and> 0 \<le> snd (food s') \<and> snd (food s') < HEIGHT
    \<and> food s' \<notin> set (snake s')"
    if "reset_game s g = Some (s', g')" for s' g'
  proof -
    from reset_game_returns [OF that] obtain c where
      c: "c \<notin> {(15, 10), (14, 10), (13, 10)}" "\<not> hits_wall c"
      and s': "s' = s\<lparr>snake := [(15, 10), (14, 10), (13, 10)], direction := RIGHT, score := 0,
                game_over := False, paused := False, food := c\<rparr>"
      by blast
    from c(2) have "0 \<le> fst c \<and> fst c < WIDTH \<and> 0 \<le> snd c \<and> snd c < HEIGHT"
      by (simp add: hits_wall_def not_le)
    with c(1) s' show ?thesis by (simp add: WIDTH_def HEIGHT_def)
  qed
  moreover have "\<exists>s' g'. reset_game s g = Some (s', g')"
    if "\<exists>n. drawn (sdrop (2 * n) g) \<notin> {(15, 10), (14, 10), (13, 10)}"
  proof -
    let ?s0 = "s\<lparr>snake := [(15, 10), (14, 10), (13, 10)], direction := RIGHT, score := 0,
                game_over := False, paused := False\<rparr>"
    from that obtain n where "drawn (sdrop (2 * n) g) \<notin> set (snake ?s0)" by auto
    from place_food_returns [OF this] show ?thesis
      by (simp add: reset_game_def WIDTH_def HEIGHT_def)
  qed
  ultimately show ?thesis by blast
qed

theorem reset_game_establishes_start_witness:
  "drawn (sdrop (2 * 0) (sconst 0)) \<notin> {(15, 10), (14, 10), (13, 10)}
   \<and> reset_game (coiled\<lparr>game_over := True\<rparr>) (sconst 0) =
       Some (\<lparr>snake = [(15, 10), (14, 10), (13, 10)], food = (0, 0), direction = RIGHT,
               score = 0, game_over = False, paused = False\<rparr>, sconst 0)
   \<and> (\<exists>s' g'. reset_game (coiled\<lparr>game_over := True\<rparr>) (sconst 0) = Some (s', g')
        \<and> snake s' = [(15, 10), (14, 10), (13, 10)] \<and> score s' = 0 \<and> \<not> game_over s'
        \<and> food s' \<notin> set (snake s'))"
proof -
  have free: "drawn (sdrop (2 * 0) (sconst 0)) \<notin> {(15, 10), (14, 10), (13, 10)}"
    by (simp add: drawn_eq)
  have val: "reset_game (coiled\<lparr>game_over := True\<rparr>) (sconst 0) =
       Some (\<lparr>snake = [(15, 10), (14, 10), (13, 10)], food = (0, 0), direction = RIGHT,
               score = 0, game_over = False, paused = False\<rparr>, sconst 0)"
    by (simp add: reset_game_def coiled_def WIDTH_def HEIGHT_def place_food_free drawn_eq)
  from reset_game_establishes_start [of "coiled\<lparr>game_over := True\<rparr>" "sconst 0"] free
  obtain s' g' where r: "reset_game (coiled\<lparr>game_over := True\<rparr>) (sconst 0) = Some (s', g')"
    by blast
  with reset_game_establishes_start [of "coiled\<lparr>game_over := True\<rparr>" "sconst 0"]
  have "snake s' = [(15, 10), (14, 10), (13, 10)] \<and> score s' = 0 \<and> \<not> game_over s'
        \<and> food s' \<notin> set (snake s')"
    by blast
  with r free val show ?thesis by blast
qed

text \<open>
  Claim C5. In every state reached from a state returned by \<^verbatim>\<open>reset_game\<close> through any
  sequence of ticks, direction changes, pause toggles and resets, the snake has no
  duplicate cell and the food cell is not on the snake. Each single operation that
  returns preserves each of the two predicates, from any state.
\<close>

theorem snake_distinct_and_food_off_snake:
  "(reset_game s0 g0 = Some (s1, g1) \<longrightarrow> run ops (s1, g1) = Some (Inr (s, g))
      \<longrightarrow> distinct (snake s) \<and> food s \<notin> set (snake s))
   \<and> (apply_op x (a, r) = Some (Inr (a', r'))
      \<longrightarrow> (distinct (snake a) \<longrightarrow> distinct (snake a'))
        \<and> (food a \<notin> set (snake a) \<longrightarrow> food a' \<notin> set (snake a')))"
proof -
  have "distinct (snake s) \<and> food s \<notin> set (snake s)"
    if start: "reset_game s0 g0 = Some (s1, g1)" and run: "run ops (s1, g1) = Some (Inr (s, g))"
  proof -
    let ?P = "\<lambda>v. distinct (snake v) \<and> food v \<notin> set (snake v)"
    from reset_game_returns [OF start] have init: "?P s1"
      by auto
    have step: "?P v'" if "?P v" and "apply_op y (v, w) = Some (Inr (v', w'))" for y v w v' w'
      using that apply_op_distinct apply_op_food_off_snake by blast
    from run_invariant [of ?P, OF step init run] show ?thesis .
  qed
  then show ?thesis
    using apply_op_distinct apply_op_food_off_snake by blast
qed

theorem snake_distinct_and_food_off_snake_witness:
  "reset_game coiled (16 ## 10 ## sconst 0) =
     Some (\<lparr>snake = [(15, 10), (14, 10), (13, 10)], food = (16, 10), direction = RIGHT,
             score = 0, game_over = False, paused = False\<rparr>, sconst 0)
   \<and> run [Step, SetDirection UP, Step, TogglePause, Step, TogglePause, Step]
        (\<lparr>snake = [(15, 10), (14, 10), (13, 10)], food = (16, 10), direction = RIGHT,
           score = 0, game_over = False, paused = False\<rparr>, sconst 0) =
     Some (Inr (\<lparr>snake = [(16, 8), (16, 9), (16, 10), (15, 10)], food = (0, 0), direction = UP,
                  score = 10, game_over = False, paused = False\<rparr>, sconst 0))
   \<and> distinct (snake \<lparr>snake = [(16, 8), (16, 9), (16, 10), (15, 10)], food = (0, 0),
        direction = UP, score = 10, game_over = False, paused = False\<rparr>)
   \<and> food \<lparr>snake = [(16, 8), (16, 9), (16, 10), (15, 10)], food = (0, 0),
        direction = UP, score = 10, game_over = False, paused = False\<rparr>
     \<notin> set (snake \<lparr>snake = [(16, 8), (16, 9), (16, 10), (15, 10)], food = (0, 0),
        direction = UP, score = 10, game_over = False, paused = False\<rparr>)
   \<and> apply_op Step
        (\<lparr>snake = [(15, 10), (14, 10), (13, 10)], food = (16, 10), direction = RIGHT,
           score = 0, game_over = False, paused = False\<rparr>, sconst 0) =
     Some (Inr (\<lparr>snake = [(16, 10), (15, 10), (14, 10), (13, 10)], food = (0, 0),
                  direction = RIGHT, score = 10, game_over = False, paused = False\<rparr>, sconst 0))
   \<and> distinct (snake \<lparr>snake = [(16, 10), (15, 10), (14, 10), (13, 10)], food = (0, 0),
        direction = RIGHT, score = 10, game_over = False, paused = False\<rparr>)
   \<and> food \<lparr>snake = [(16, 10), (15, 10), (14, 10), (13, 10)], food = (0, 0),
        direction = RIGHT, score = 10, game_over = False, paused = False\<rparr>
     \<notin> set (snake \<lparr>snake = [(16, 10), (15, 10), (14, 10), (13, 10)], food = (0, 0),
        direction = RIGHT, score = 10, game_over = False, paused = False\<rparr>)"
proof -
  let ?s1 = "\<lparr>snake = [(15, 10), (14, 10), (13, 10)], food = (16, 10), direction = RIGHT,
             score = 0, game_over = False, paused = False\<rparr>"
  let ?s = "\<lparr>snake = [(16, 8), (16, 9), (16, 10), (15, 10)], food = (0, 0), direction = UP,
                  score = 10, game_over = False, paused = False\<rparr>"
  have start: "reset_game coiled (16 ## 10 ## sconst 0) = Some (?s1, sconst 0)"
    by (simp add: run_eval coiled_def)
  have run: "run [Step, SetDirection UP, Step, TogglePause, Step, TogglePause, Step] (?s1, sconst 0)
      = Some (Inr (?s, sconst 0))"
    by (simp add: run_eval)
  let ?s2 = "\<lparr>snake = [(16, 10), (15, 10), (14, 10), (13, 10)], food = (0, 0),
                  direction = RIGHT, score = 10, game_over = False, paused = False\<rparr>"
  have one: "apply_op Step (?s1, sconst 0) = Some (Inr (?s2, sconst 0))"
    by (simp add: run_eval)
  have before: "distinct (snake ?s1)" "food ?s1 \<notin> set (snake ?s1)"
    by simp_all
  note inst = snake_distinct_and_food_off_snake
    [of coiled "16 ## 10 ## sconst 0" ?s1 "sconst 0"
        "[Step, SetDirection UP, Step, TogglePause, Step, TogglePause, Step]" ?s "sconst 0"
        Step ?s1 "sconst 0" ?s2 "sconst 0"]
  from inst start run
  have reached: "distinct (snake ?s) \<and> food ?s \<notin> set (snake ?s)" by blast
  from inst one before
  have kept: "distinct (snake ?s2) \<and> food ?s2 \<notin> set (snake ?s2)" by blast
  from start run reached one kept show ?thesis by blast
qed

text \<open>
  Claim C10. In every state reached from a state returned by \<^verbatim>\<open>reset_game\<close> through any
  sequence of ticks, direction changes, pause toggles and resets, the score is ten times
  the number of cells the snake has grown beyond its initial three; it is therefore a
  non-negative multiple of ten.
\<close>

theorem score_is_ten_per_grown_cell:
  assumes "reset_game s0 g0 = Some (s1, g1)" and "run ops (s1, g1) = Some (Inr (s, g))"
  shows "score s = 10 * (int (length (snake s)) - 3) \<and> 0 \<le> score s \<and> score s mod 10 = 0"
proof -
  let ?P = "\<lambda>v. score v = 10 * (int (length (snake v)) - 3) \<and> 3 \<le> length (snake v)"
  from reset_game_returns [OF assms(1)] have init: "?P s1"
    by auto
  have step: "?P v'" if "?P v" and "apply_op y (v, w) = Some (Inr (v', w'))" for y v w v' w'
    using apply_op_score [OF that(2) that(1)] .
  from run_invariant [of ?P, OF step init assms(2)] have "?P s" .
  then show ?thesis by simp
qed

theorem score_is_ten_per_grown_cell_witness:
  "reset_game scenario (17 ## 10 ## sconst 3) =
     Some (\<lparr>snake = [(15, 10), (14, 10), (13, 10)], food = (17, 10), direction = RIGHT,
             score = 0, game_over = False, paused = False\<rparr>, sconst 3)
   \<and> run [Step, Step, SetDirection DOWN, Step]
        (\<lparr>snake = [(15, 10), (14, 10), (13, 10)], food = (17, 10), direction = RIGHT,
           score = 0, game_over = False, paused = False\<rparr>, sconst 3) =
     Some (Inr (\<lparr>snake = [(17, 11), (17, 10), (16, 10), (15, 10)], food = (3, 3),
                  direction = DOWN, score = 10, game_over = False, paused = False\<rparr>, sconst 3))
   \<and> score \<lparr>snake = [(17, 11), (17, 10), (16, 10), (15, 10)], food = (3, 3),
        direction = DOWN, score = 10, game_over = False, paused = False\<rparr> =
     10 * (int (length (snake \<lparr>snake = [(17, 11), (17, 10), (16, 10), (15, 10)], food = (3, 3),
        direction = DOWN, score = 10, game_over = False, paused = False\<rparr>)) - 3)"
proof -
  let ?s1 = "\<lparr>snake = [(15, 10), (14, 10), (13, 10)], food = (17, 10), direction = RIGHT,
             score = 0, game_over = False, paused = False\<rparr>"
  let ?s = "\<lparr>snake = [(17, 11), (17, 10), (16, 10), (15, 10)], food = (3, 3),
                  direction = DOWN, score = 10, game_over = False, paused = False\<rparr>"
  have start: "reset_game scenario (17 ## 10 ## sconst 3) = Some (?s1, sconst 3)"
    by (simp add: run_eval scenario_def)
  have run: "run [Step, Step, SetDirection DOWN, Step] (?s1, sconst 3) = Some (Inr (?s, sconst 3))"
    by (simp add: run_eval)
  from score_is_ten_per_grown_cell [OF start run]
  have "score ?s = 10 * (int (length (snake ?s)) - 3)" by blast
  with start run show ?thesis by blast
qed

end
